theory Spec2Isabelle
  imports Complex_Main "HOL-Library.Multiset" "HOL-Library.Word"
begin

section \<open>Arrays, errors and the NumPy primitives used by \<open>group_conv.py\<close>\<close>

text \<open>
  The module works on dense NumPy arrays. A two-dimensional integer array of shape
  \<open>[n, n]\<close> (a multiplication table) is a list of \<open>n\<close> rows of \<open>n\<close> integers; its
  entries are Python/NumPy integers, modelled by \<open>int\<close>, and positions are \<open>nat\<close>.
  The exceptions the module can raise are values of \<open>py_error\<close>, and a function that
  can raise returns \<open>py_error + result\<close> with \<open>Inl\<close> the exception.
\<close>

datatype py_error = ValueError string | AssertionError | IndexError

type_synonym table = "int list list"

definition square :: "'a list list \<Rightarrow> bool" where
  "square t = list_all (\<lambda>row. length row = length t) t"

text \<open>\<^verbatim>\<open>np.arange(n)\<close>\<close>

definition arange :: "nat \<Rightarrow> int list" where
  "arange n = map int [0..<n]"

text \<open>\<^verbatim>\<open>np.all\<close> over one axis of booleans.\<close>

definition np_all :: "bool list \<Rightarrow> bool" where
  "np_all bs = list_all (\<lambda>b. b) bs"

text \<open>\<^verbatim>\<open>np.nonzero\<close> of a one-dimensional boolean array: the positions holding
  \<open>True\<close>, in increasing order.\<close>

definition nonzero :: "bool list \<Rightarrow> nat list" where
  "nonzero bs = filter (\<lambda>i. bs ! i) [0..<length bs]"

text \<open>\<^verbatim>\<open>np.nonzero\<close> of a two-dimensional boolean array: the (row, column)
  positions holding \<open>True\<close>, in row-major order.\<close>

definition nonzero2 :: "bool list list \<Rightarrow> (nat \<times> nat) list" where
  "nonzero2 bss =
     concat (map (\<lambda>r. map (\<lambda>c. (r, c)) (nonzero (bss ! r))) [0..<length bss])"

section \<open>\<open>identity\<close>\<close>

text \<open>
  \<^verbatim>\<open>
  n = table.shape[0]
  (i,) = np.nonzero(np.all((table == np.arange(n)), axis=1))
  if (len(i) != 1):
      raise ValueError('No or multiple identities')
  return i[0]
  \<close>
  The comparison \<^verbatim>\<open>table == np.arange(n)\<close> broadcasts the index row against every
  row of the table.
\<close>

definition identity :: "table \<Rightarrow> py_error + nat" where
  "identity t =
     (let n = length t;
          i = nonzero (map (\<lambda>row. np_all (map2 (\<lambda>x y. x = y) row (arange n))) t)
      in if length i \<noteq> 1 then Inl (ValueError ''No or multiple identities'')
         else Inr (i ! 0))"

section \<open>\<open>inverses\<close>\<close>

text \<open>
  \<^verbatim>\<open>
  n = table.shape[0]
  e = identity(table)
  (i, j) = np.nonzero((table == e))
  if ((len(i) != n) or (not np.all((i == np.arange(n))))):
      raise ValueError('Every element does not have one inverse')
  return j
  \<close>
  \<open>identity_positions\<close> is the pair list \<^verbatim>\<open>(i, j)\<close> of the source: the positions
  of the table that hold the identity, in row-major order.
\<close>

definition identity_positions :: "table \<Rightarrow> nat \<Rightarrow> (nat \<times> nat) list" where
  "identity_positions t e = nonzero2 (map (map (\<lambda>x. x = int e)) t)"

definition inverses :: "table \<Rightarrow> py_error + nat list" where
  "inverses t =
     (let n = length t in
      case identity t of
        Inl err \<Rightarrow> Inl err
      | Inr e \<Rightarrow>
          (let ij = identity_positions t e;
               i = map fst ij;
               j = map snd ij
           in if length i \<noteq> n \<or> \<not> np_all (map2 (\<lambda>x y. x = y) (map int i) (arange n))
              then Inl (ValueError ''Every element does not have one inverse'')
              else Inr j))"

text \<open>The cyclic group of order \<open>n\<close>: \<open>table[i, j] = (i + j) mod n\<close>.\<close>

definition cyclic_table :: "nat \<Rightarrow> table" where
  "cyclic_table n = map (\<lambda>i. map (\<lambda>j. int ((i + j) mod n)) [0..<n]) [0..<n]"

text \<open>
  A group table in the sense of the data model: every row and every column is a
  permutation of \<open>0, \<dots>, n - 1\<close>, and exactly one row is the index row.
\<close>

definition is_permutation :: "nat \<Rightarrow> int list \<Rightarrow> bool" where
  "is_permutation n xs = (mset xs = mset (arange n))"

definition column :: "table \<Rightarrow> nat \<Rightarrow> int list" where
  "column t c = map (\<lambda>row. row ! c) t"

definition rows_permutations :: "table \<Rightarrow> bool" where
  "rows_permutations t = list_all (is_permutation (length t)) t"

definition columns_permutations :: "table \<Rightarrow> bool" where
  "columns_permutations t =
     list_all (\<lambda>c. is_permutation (length t) (column t c)) [0..<length t]"

definition valid_group_table :: "table \<Rightarrow> bool" where
  "valid_group_table t =
     (rows_permutations t \<and> columns_permutations t \<and>
      length (filter (\<lambda>row. row = arange (length t)) t) = 1)"

section \<open>\<open>regular_representation\<close>\<close>

text \<open>
  \<^verbatim>\<open>
  (n, _) = table.shape
  (g, h) = np.meshgrid(np.arange(n), np.arange(n), indexing='ij')
  gh = table
  reg_rep = np.zeros((n, n, n))
  reg_rep[g, gh, h] = 1
  return reg_rep
  \<close>
  The index arrays \<open>g\<close> and \<open>h\<close> enumerate the grid positions \<open>(g, h)\<close> in row-major
  order (\<open>meshgrid_ij\<close>). The assignment \<^verbatim>\<open>reg_rep[g, gh, h] = 1\<close> is an indexed
  assignment: NumPy first checks every index \<open>gh[g, h]\<close> against the axis length \<open>n\<close>
  (\<open>index_in_bounds\<close>; an index outside \<open>-n, \<dots>, n - 1\<close> raises \<open>IndexError\<close>), counts
  a negative index from the end (\<open>wrap_index\<close>), and then writes \<open>1.0\<close> at every
  position \<open>(g, gh[g, h], h)\<close> (\<open>set_one\<close>). The entries of \<open>reg_rep\<close> are the floats
  \<open>0.0\<close> and \<open>1.0\<close>, written here as the reals \<open>0\<close> and \<open>1\<close>.
\<close>

definition wrap_index :: "nat \<Rightarrow> int \<Rightarrow> nat" where
  "wrap_index n k = nat (if k < 0 then k + int n else k)"

definition index_in_bounds :: "nat \<Rightarrow> int \<Rightarrow> bool" where
  "index_in_bounds n k = (- int n \<le> k \<and> k < int n)"

definition meshgrid_ij :: "nat \<Rightarrow> (nat \<times> nat) list" where
  "meshgrid_ij n = concat (map (\<lambda>g. map (\<lambda>h. (g, h)) [0..<n]) [0..<n])"

definition set_one :: "real list list list \<Rightarrow> nat \<times> nat \<times> nat \<Rightarrow> real list list list" where
  "set_one D = (\<lambda>(g, r, h). D[g := (D ! g)[r := (D ! g ! r)[h := 1]]])"

definition regular_representation :: "table \<Rightarrow> py_error + real list list list" where
  "regular_representation t =
     (let n = length t;
          ghs = map (\<lambda>(g, h). (g, t ! g ! h, h)) (meshgrid_ij n);
          reg_rep = replicate n (replicate n (replicate n 0))
      in if list_all (\<lambda>(g, k, h). index_in_bounds n k) ghs
         then Inr (fold (\<lambda>(g, k, h) D. set_one D (g, wrap_index n k, h)) ghs reg_rep)
         else Inl IndexError)"

text \<open>
  A multiplication table in the sense of the contract of \<open>regular_representation\<close>:
  an \<open>n \<times> n\<close> table whose entries are element indices \<open>0, \<dots>, n - 1\<close>.
\<close>

definition entries_in_range :: "table \<Rightarrow> bool" where
  "entries_in_range t = list_all (list_all (\<lambda>k. 0 \<le> k \<and> k < int (length t))) t"

definition valid_multiplication_table :: "table \<Rightarrow> bool" where
  "valid_multiplication_table t = (square t \<and> entries_in_range t)"

text \<open>The standard basis vector \<open>e\<^sub>x\<close> of length \<open>n\<close> and the matrix-vector product.\<close>

definition basis :: "nat \<Rightarrow> nat \<Rightarrow> real list" where
  "basis n x = map (\<lambda>i. if i = x then 1 else 0) [0..<n]"

definition matvec :: "real list list \<Rightarrow> real list \<Rightarrow> real list" where
  "matvec M v = map (\<lambda>row. sum_list (map2 (\<lambda>a b. a * b) row v)) M"


text \<open>The shape \<open>[n, n, n]\<close> of a stack of matrices.\<close>

definition dims3 :: "nat \<Rightarrow> 'a list list list \<Rightarrow> bool" where
  "dims3 n D = (length D = n \<and> (\<forall>g<n. length (D ! g) = n \<and> (\<forall>r<n. length (D ! g ! r) = n)))"


section \<open>Lists of positions\<close>

lemma filter_upt_single:
  "(filter P [0..<n] = [i]) = (i < n \<and> P i \<and> (\<forall>k<n. P k \<longrightarrow> k = i))"
proof
  assume h: "filter P [0..<n] = [i]"
  have "set (filter P [0..<n]) = {i}" using h by simp
  then have "{k. k < n \<and> P k} = {i}" by auto
  then show "i < n \<and> P i \<and> (\<forall>k<n. P k \<longrightarrow> k = i)" by blast
next
  assume h: "i < n \<and> P i \<and> (\<forall>k<n. P k \<longrightarrow> k = i)"
  have d: "distinct (filter P [0..<n])" by simp
  have s: "set (filter P [0..<n]) = {i}" using h by auto
  have "length (filter P [0..<n]) = card {i}"
    using distinct_card [OF d] s by simp
  then have "length (filter P [0..<n]) = 1" by simp
  then obtain x where x: "filter P [0..<n] = [x]"
    by (cases "filter P [0..<n]") auto
  with s show "filter P [0..<n] = [i]" by auto
qed

lemma length_filter_upt_one:
  "(length (filter P [0..<n]) = 1) = (\<exists>i. i < n \<and> P i \<and> (\<forall>k<n. P k \<longrightarrow> k = i))"
proof
  assume "length (filter P [0..<n]) = 1"
  then obtain x where "filter P [0..<n] = [x]"
    by (cases "filter P [0..<n]") auto
  then show "\<exists>i. i < n \<and> P i \<and> (\<forall>k<n. P k \<longrightarrow> k = i)"
    using filter_upt_single [of P n x] by blast
next
  assume "\<exists>i. i < n \<and> P i \<and> (\<forall>k<n. P k \<longrightarrow> k = i)"
  then obtain i where "filter P [0..<n] = [i]"
    using filter_upt_single [of P n] by blast
  then show "length (filter P [0..<n]) = 1" by simp
qed

lemma row_eq_arange:
  "length row = n \<Longrightarrow> np_all (map2 (\<lambda>x y. x = y) row (arange n)) = (row = arange n)"
  by (auto simp: np_all_def arange_def list_all_length list_eq_iff_nth_eq)

lemma identity_rows:
  assumes "square t"
  shows "nonzero (map (\<lambda>row. np_all (map2 (\<lambda>x y. x = y) row (arange (length t)))) t)
         = filter (\<lambda>i. t ! i = arange (length t)) [0..<length t]"
proof -
  have len: "\<And>i. i < length t \<Longrightarrow> length (t ! i) = length t"
    using assms by (simp add: square_def list_all_length)
  have "filter (\<lambda>i. map (\<lambda>row. np_all (map2 (\<lambda>x y. x = y) row (arange (length t)))) t ! i)
          [0..<length t]
        = filter (\<lambda>i. t ! i = arange (length t)) [0..<length t]"
  proof (rule filter_cong [OF refl])
    fix i assume "i \<in> set [0..<length t]"
    then have i: "i < length t" by simp
    show "map (\<lambda>row. np_all (map2 (\<lambda>x y. x = y) row (arange (length t)))) t ! i
          = (t ! i = arange (length t))"
      using i row_eq_arange [OF len [OF i]] by simp
  qed
  then show ?thesis by (simp add: nonzero_def)
qed

lemma identity_eq:
  assumes "square t"
  shows "identity t =
     (case filter (\<lambda>i. t ! i = arange (length t)) [0..<length t] of
        [i] \<Rightarrow> Inr i
      | _ \<Rightarrow> Inl (ValueError ''No or multiple identities''))"
proof -
  let ?f = "filter (\<lambda>i. t ! i = arange (length t)) [0..<length t]"
  show ?thesis
  proof (cases ?f)
    case Nil
    then show ?thesis by (simp add: identity_def Let_def identity_rows [OF assms])
  next
    case (Cons x xs)
    then show ?thesis
      by (cases xs) (simp_all add: identity_def Let_def identity_rows [OF assms])
  qed
qed

lemma identity_Inr_iff:
  assumes "square t"
  shows "(identity t = Inr i) =
         (i < length t \<and> t ! i = arange (length t) \<and>
          (\<forall>k<length t. t ! k = arange (length t) \<longrightarrow> k = i))"
proof -
  let ?f = "filter (\<lambda>i. t ! i = arange (length t)) [0..<length t]"
  have "(identity t = Inr i) = (?f = [i])"
    unfolding identity_eq [OF assms]
    by (auto split: list.splits)
  then show ?thesis by (simp add: filter_upt_single)
qed

lemma identity_cases:
  "identity t = Inl (ValueError ''No or multiple identities'') \<or> (\<exists>i. identity t = Inr i)"
  by (simp add: identity_def Let_def)

section \<open>The positions scanned by \<open>inverses\<close>\<close>

lemma count_upt: "count (mset [0..<n]) r = (if r < n then 1 else 0)"
  by (induction n) auto

lemma count_blocks:
  "count (mset (concat (map (\<lambda>r. replicate (c r) r) [0..<n]))) r = (if r < n then c r else 0)"
  by (induction n) auto

lemma fst_blocks:
  "map fst (concat (map (\<lambda>r. map (\<lambda>c. (r, c)) (f r)) [0..<n]))
   = concat (map (\<lambda>r. replicate (length (f r)) r) [0..<n])"
  by (induction n) (auto simp: map_replicate_const comp_def)

lemma rows_enumerated_iff:
  "(map fst (concat (map (\<lambda>r. map (\<lambda>c. (r, c)) (f r)) [0..<n])) = [0..<n])
   = (\<forall>r<n. length (f r) = 1)"
proof
  assume h: "map fst (concat (map (\<lambda>r. map (\<lambda>c. (r, c)) (f r)) [0..<n])) = [0..<n]"
  show "\<forall>r<n. length (f r) = 1"
  proof (intro allI impI)
    fix r assume r: "r < n"
    have "count (mset (concat (map (\<lambda>r. replicate (length (f r)) r) [0..<n]))) r
          = count (mset [0..<n]) r"
      using h by (simp add: fst_blocks)
    then show "length (f r) = 1" using r by (simp add: count_blocks count_upt)
  qed
next
  assume h: "\<forall>r<n. length (f r) = 1"
  have "map (\<lambda>r. replicate (length (f r)) r) [0..<n] = map (\<lambda>r. [r]) [0..<n]"
    using h by (intro map_cong) auto
  then have "concat (map (\<lambda>r. replicate (length (f r)) r) [0..<n]) = concat (map (\<lambda>r. [r]) [0..<n])"
    by (rule arg_cong)
  then show "map fst (concat (map (\<lambda>r. map (\<lambda>c. (r, c)) (f r)) [0..<n])) = [0..<n]"
    by (simp only: fst_blocks concat_map_singleton map_ident)
qed

lemma snd_blocks:
  assumes "\<forall>r<n. length (f r) = 1"
  shows "map snd (concat (map (\<lambda>r. map (\<lambda>c. (r, c)) (f r)) [0..<n]))
         = map (\<lambda>r. hd (f r)) [0..<n]"
proof -
  have "\<And>r. r < n \<Longrightarrow> f r = [hd (f r)]"
  proof -
    fix r assume "r < n"
    then have "length (f r) = 1" using assms by simp
    then show "f r = [hd (f r)]" by (cases "f r") auto
  qed
  then have "\<And>r. r < n \<Longrightarrow> map (\<lambda>c. (r, c)) (f r) = [(r, hd (f r))]"
    by (metis list.simps(8,9))
  then have "map (\<lambda>r. map (\<lambda>c. (r, c)) (f r)) [0..<n] = map (\<lambda>r. [(r, hd (f r))]) [0..<n]"
    by (intro map_cong) auto
  then have "concat (map (\<lambda>r. map (\<lambda>c. (r, c)) (f r)) [0..<n])
             = concat (map (\<lambda>r. [(r, hd (f r))]) [0..<n])"
    by (rule arg_cong)
  then show ?thesis by (simp only: concat_map_singleton map_map comp_def snd_conv)
qed

lemma enumerates_check:
  "(length i = n \<and> np_all (map2 (\<lambda>x y. x = y) (map int i) (arange n))) = (i = [0..<n])"
proof
  assume h: "length i = n \<and> np_all (map2 (\<lambda>x y. x = y) (map int i) (arange n))"
  show "i = [0..<n]"
  proof (rule nth_equalityI)
    show "length i = length [0..<n]" using h by simp
  next
    fix k assume k: "k < length i"
    then have "map2 (\<lambda>x y. x = y) (map int i) (arange n) ! k"
      using h by (simp add: np_all_def arange_def list_all_length)
    then have "int (i ! k) = int k" using k h by (simp add: arange_def)
    then show "i ! k = [0..<n] ! k" using k h by simp
  qed
next
  assume "i = [0..<n]"
  then show "length i = n \<and> np_all (map2 (\<lambda>x y. x = y) (map int i) (arange n))"
    by (simp add: np_all_def arange_def list_all_length)
qed

lemma identity_positions_eq:
  assumes "square t"
  shows "identity_positions t e =
     concat (map (\<lambda>r. map (\<lambda>c. (r, c)) (filter (\<lambda>c. t ! r ! c = int e) [0..<length t]))
        [0..<length t])"
proof -
  have len: "\<And>i. i < length t \<Longrightarrow> length (t ! i) = length t"
    using assms by (simp add: square_def list_all_length)
  have "map (\<lambda>r. map (\<lambda>c. (r, c)) (nonzero (map (map (\<lambda>x. x = int e)) t ! r))) [0..<length t]
      = map (\<lambda>r. map (\<lambda>c. (r, c)) (filter (\<lambda>c. t ! r ! c = int e) [0..<length t])) [0..<length t]"
  proof (rule map_cong [OF refl])
    fix r assume "r \<in> set [0..<length t]"
    then have r: "r < length t" by simp
    have "nonzero (map (\<lambda>x. x = int e) (t ! r)) = filter (\<lambda>c. t ! r ! c = int e) [0..<length t]"
      unfolding nonzero_def using len [OF r] by (auto intro!: filter_cong)
    then show "map (\<lambda>c. (r, c)) (nonzero (map (map (\<lambda>x. x = int e)) t ! r))
         = map (\<lambda>c. (r, c)) (filter (\<lambda>c. t ! r ! c = int e) [0..<length t])"
      using r by simp
  qed
  then have "concat (map (\<lambda>r. map (\<lambda>c. (r, c)) (nonzero (map (map (\<lambda>x. x = int e)) t ! r))) [0..<length t])
      = concat (map (\<lambda>r. map (\<lambda>c. (r, c)) (filter (\<lambda>c. t ! r ! c = int e) [0..<length t])) [0..<length t])"
    by (rule arg_cong)
  then show ?thesis by (simp only: identity_positions_def nonzero2_def length_map)
qed

lemma inverses_eq:
  assumes "square t" and "identity t = Inr e"
  shows "inverses t =
     (if \<forall>r<length t. length (filter (\<lambda>c. t ! r ! c = int e) [0..<length t]) = 1
      then Inr (map (\<lambda>r. hd (filter (\<lambda>c. t ! r ! c = int e) [0..<length t])) [0..<length t])
      else Inl (ValueError ''Every element does not have one inverse''))"
proof -
  let ?f = "\<lambda>r. filter (\<lambda>c. t ! r ! c = int e) [0..<length t]"
  let ?ij = "identity_positions t e"
  have ij: "?ij = concat (map (\<lambda>r. map (\<lambda>c. (r, c)) (?f r)) [0..<length t])"
    by (rule identity_positions_eq [OF assms(1)])
  have chk: "(length (map fst ?ij) \<noteq> length t \<or>
         \<not> np_all (map2 (\<lambda>x y. x = y) (map int (map fst ?ij)) (arange (length t))))
        = (\<not> (\<forall>r<length t. length (?f r) = 1))"
    using enumerates_check [of "map fst ?ij" "length t"] rows_enumerated_iff [of ?f "length t"]
    unfolding ij by blast
  show ?thesis
  proof (cases "\<forall>r<length t. length (?f r) = 1")
    case True
    have "map snd ?ij = map (\<lambda>r. hd (?f r)) [0..<length t]"
      unfolding ij by (rule snd_blocks [OF True])
    then show ?thesis using True chk assms(2) by (simp add: inverses_def Let_def)
  next
    case False
    then show ?thesis using chk assms(2) by (simp add: inverses_def Let_def)
  qed
qed

lemma inverses_Inr_iff:
  assumes "square t" and "identity t = Inr e"
  shows "(inverses t = Inr js) =
     (length js = length t \<and>
      (\<forall>r<length t. js ! r < length t \<and> t ! r ! (js ! r) = int e \<and>
          (\<forall>c<length t. t ! r ! c = int e \<longrightarrow> c = js ! r)))"
proof -
  let ?f = "\<lambda>r. filter (\<lambda>c. t ! r ! c = int e) [0..<length t]"
  show ?thesis
  proof
    assume h: "inverses t = Inr js"
    have one: "\<forall>r<length t. length (?f r) = 1"
      using h unfolding inverses_eq [OF assms] by (auto split: if_splits)
    have js: "js = map (\<lambda>r. hd (?f r)) [0..<length t]"
      using h one unfolding inverses_eq [OF assms] by (auto split: if_splits)
    show "length js = length t \<and>
      (\<forall>r<length t. js ! r < length t \<and> t ! r ! (js ! r) = int e \<and>
          (\<forall>c<length t. t ! r ! c = int e \<longrightarrow> c = js ! r))"
    proof (intro conjI allI impI)
      show "length js = length t" by (simp add: js)
    next
      fix r assume r: "r < length t"
      then have "length (?f r) = 1" using one by simp
      then have "?f r = [hd (?f r)]" by (cases "?f r") auto
      then have "?f r = [js ! r]" using r by (simp add: js)
      then have *: "js ! r < length t \<and> t ! r ! (js ! r) = int e \<and>
          (\<forall>c<length t. t ! r ! c = int e \<longrightarrow> c = js ! r)"
        by (rule filter_upt_single [THEN iffD1])
      show "js ! r < length t" using * by simp
      show "t ! r ! (js ! r) = int e" using * by simp
      fix c assume "c < length t" "t ! r ! c = int e"
      then show "c = js ! r" using * by simp
    qed
  next
    assume h: "length js = length t \<and>
      (\<forall>r<length t. js ! r < length t \<and> t ! r ! (js ! r) = int e \<and>
          (\<forall>c<length t. t ! r ! c = int e \<longrightarrow> c = js ! r))"
    have f: "\<And>r. r < length t \<Longrightarrow> ?f r = [js ! r]"
    proof -
      fix r assume "r < length t"
      then have "js ! r < length t \<and> t ! r ! (js ! r) = int e \<and>
          (\<forall>c<length t. t ! r ! c = int e \<longrightarrow> c = js ! r)" using h by blast
      then show "?f r = [js ! r]" by (rule filter_upt_single [THEN iffD2])
    qed
    then have one: "\<forall>r<length t. length (?f r) = 1" by simp
    have "map (\<lambda>r. hd (?f r)) [0..<length t] = js"
    proof (rule nth_equalityI)
      show "length (map (\<lambda>r. hd (?f r)) [0..<length t]) = length js" using h by simp
    next
      fix k assume "k < length (map (\<lambda>r. hd (?f r)) [0..<length t])"
      then have k: "k < length t" by simp
      show "map (\<lambda>r. hd (?f r)) [0..<length t] ! k = js ! k"
        using k f [OF k] by simp
    qed
    then show "inverses t = Inr js"
      unfolding inverses_eq [OF assms] using one by simp
  qed
qed

section \<open>Valid group tables\<close>

lemma filter_rows_indices:
  "length (filter P xs) = length (filter (\<lambda>i. P (xs ! i)) [0..<length xs])"
proof -
  have "filter P (map (\<lambda>i. xs ! i) [0..<length xs])
        = map (\<lambda>i. xs ! i) (filter (P \<circ> (\<lambda>i. xs ! i)) [0..<length xs])"
    by (rule filter_map)
  then have "filter P xs = map (\<lambda>i. xs ! i) (filter (\<lambda>i. P (xs ! i)) [0..<length xs])"
    by (simp add: map_nth comp_def)
  then show ?thesis by (metis length_map)
qed

lemma permutation_facts:
  assumes "is_permutation n xs"
  shows "length xs = n" and "distinct xs" and "set xs = int ` {0..<n}"
proof -
  have m: "mset xs = mset (arange n)" using assms by (simp add: is_permutation_def)
  have "length xs = length (arange n)" using m by (rule mset_eq_length)
  then show "length xs = n" by (simp add: arange_def)
  have "distinct (arange n)" by (simp add: arange_def distinct_map)
  then show "distinct xs" using m by (metis mset_eq_imp_distinct_iff)
  have "set xs = set (arange n)" using m by (rule mset_eq_setD)
  then show "set xs = int ` {0..<n}" by (simp add: arange_def)
qed

lemma valid_square:
  assumes "valid_group_table t" shows "square t"
  using assms permutation_facts(1)
  by (auto simp: valid_group_table_def rows_permutations_def square_def list_all_iff)

lemma valid_row:
  assumes "valid_group_table t" and "r < length t"
  shows "is_permutation (length t) (t ! r)"
  using assms by (simp add: valid_group_table_def rows_permutations_def list_all_length)

lemma valid_column:
  assumes "valid_group_table t" and "c < length t"
  shows "is_permutation (length t) (column t c)"
  using assms by (simp add: valid_group_table_def columns_permutations_def list_all_length)

lemma valid_identity:
  assumes "valid_group_table t"
  shows "\<exists>e. identity t = Inr e \<and> e < length t"
proof -
  have "length (filter (\<lambda>i. t ! i = arange (length t)) [0..<length t]) = 1"
    using assms filter_rows_indices [of "\<lambda>row. row = arange (length t)" t]
    by (simp add: valid_group_table_def)
  then obtain e where e: "filter (\<lambda>i. t ! i = arange (length t)) [0..<length t] = [e]"
    by (cases "filter (\<lambda>i. t ! i = arange (length t)) [0..<length t]") auto
  then have "identity t = Inr e"
    by (simp add: identity_eq [OF valid_square [OF assms]])
  moreover have "e < length t" using e by (simp only: filter_upt_single)
  ultimately show ?thesis by blast
qed

lemma permutation_unique_position:
  assumes "is_permutation n xs" and "e < n"
  shows "\<exists>c. c < n \<and> xs ! c = int e \<and> (\<forall>k<n. xs ! k = int e \<longrightarrow> k = c)"
proof -
  note f = permutation_facts [OF assms(1)]
  have "int e \<in> set xs" using assms(2) f(3) by simp
  then obtain c where c: "c < length xs" "xs ! c = int e" by (auto simp: in_set_conv_nth)
  have "\<forall>k<n. xs ! k = int e \<longrightarrow> k = c"
    using c f(1,2) by (metis nth_eq_iff_index_eq)
  then show ?thesis using c f(1) by auto
qed

lemma valid_inverses:
  assumes "valid_group_table t"
  shows "\<exists>e js. identity t = Inr e \<and> e < length t \<and> inverses t = Inr js \<and> length js = length t \<and>
           (\<forall>i<length t. js ! i < length t \<and> t ! i ! (js ! i) = int e \<and>
               (\<forall>j<length t. t ! i ! j = int e \<longrightarrow> j = js ! i))"
proof -
  obtain e where e: "identity t = Inr e" "e < length t"
    using valid_identity [OF assms] by blast
  let ?f = "\<lambda>r. filter (\<lambda>c. t ! r ! c = int e) [0..<length t]"
  have one: "\<forall>r<length t. length (?f r) = 1"
  proof (intro allI impI)
    fix r assume "r < length t"
    then show "length (?f r) = 1"
      using permutation_unique_position [OF valid_row [OF assms] e(2), of r]
      by (simp only: length_filter_upt_one)
  qed
  let ?js = "map (\<lambda>r. hd (?f r)) [0..<length t]"
  have inv: "inverses t = Inr ?js"
    using one by (simp add: inverses_eq [OF valid_square [OF assms] e(1)])
  then have "length ?js = length t \<and>
      (\<forall>r<length t. ?js ! r < length t \<and> t ! r ! (?js ! r) = int e \<and>
          (\<forall>c<length t. t ! r ! c = int e \<longrightarrow> c = ?js ! r))"
    by (rule inverses_Inr_iff [OF valid_square [OF assms] e(1), THEN iffD1])
  then show ?thesis using e inv by blast
qed

lemma identity_positions_set:
  assumes "square t"
  shows "set (identity_positions t e) =
     {(r, c). r < length t \<and> c < length t \<and> t ! r ! c = int e}"
  unfolding identity_positions_eq [OF assms] by auto

lemma distinct_blocks:
  assumes "\<And>r. distinct (f r)"
  shows "distinct (concat (map (\<lambda>r. map (\<lambda>c. (r, c)) (f r)) [0..<n]))"
  using assms by (induction n) (auto simp: distinct_map inj_on_def)

lemma identity_positions_distinct:
  assumes "square t"
  shows "distinct (identity_positions t e)"
  unfolding identity_positions_eq [OF assms]
  by (rule distinct_blocks) simp

lemma inverses_failure:
  assumes "square t" and "identity t = Inr e"
    and "length (identity_positions t e) \<noteq> length t \<or>
         map fst (identity_positions t e) \<noteq> [0..<length t]"
  shows "inverses t = Inl (ValueError ''Every element does not have one inverse'')"
proof -
  have "\<not> (length (map fst (identity_positions t e)) = length t \<and>
     np_all (map2 (\<lambda>x y. x = y) (map int (map fst (identity_positions t e))) (arange (length t))))"
  proof (simp only: enumerates_check)
    show "map fst (identity_positions t e) \<noteq> [0..<length t]"
    proof
      assume m: "map fst (identity_positions t e) = [0..<length t]"
      then have "length (map fst (identity_positions t e)) = length [0..<length t]" by simp
      then have "length (identity_positions t e) = length t" by simp
      then show False using assms(3) m by simp
    qed
  qed
  then show ?thesis using assms(2) by (auto simp: inverses_def Let_def)
qed

lemma valid_inverses_permutation:
  assumes "valid_group_table t" and "inverses t = Inr js"
  shows "length js = length t \<and> distinct js \<and> set js = {0..<length t}"
proof -
  obtain e js' where e: "identity t = Inr e" "inverses t = Inr js'" "length js' = length t"
     "\<forall>i<length t. js' ! i < length t \<and> t ! i ! (js' ! i) = int e"
    using valid_inverses [OF assms(1)] by blast
  have js: "js' = js" using e(2) assms(2) by simp
  have len: "length js = length t" using e(3) js by simp
  have d: "distinct js"
  proof (unfold distinct_conv_nth, intro allI impI)
    fix i j assume i: "i < length js" and j: "j < length js" and ne: "i \<noteq> j"
    show "js ! i \<noteq> js ! j"
    proof
      assume eq: "js ! i = js ! j"
      let ?c = "js ! i"
      have c: "?c < length t" using e(4) i len js by simp
      have "column t ?c ! i = int e" using e(4) i len js by (simp add: column_def)
      moreover have "column t ?c ! j = int e" using e(4) j len js eq by (simp add: column_def)
      moreover have "distinct (column t ?c)" "length (column t ?c) = length t"
        using permutation_facts [OF valid_column [OF assms(1) c]] by simp_all
      ultimately have "i = j" using i j len by (metis nth_eq_iff_index_eq)
      then show False using ne by simp
    qed
  qed
  have sub: "set js \<subseteq> {0..<length t}"
    using e(4) len js by (auto simp: in_set_conv_nth)
  have "card (set js) = card {0..<length t}"
    using distinct_card [OF d] len by simp
  then have "set js = {0..<length t}"
    using sub by (simp add: card_subset_eq)
  then show ?thesis using len d by simp
qed

section \<open>The cyclic group\<close>

lemma cyclic_length: "length (cyclic_table n) = n"
  by (simp add: cyclic_table_def)

lemma cyclic_nth:
  "i < n \<Longrightarrow> j < n \<Longrightarrow> cyclic_table n ! i ! j = int ((i + j) mod n)"
  by (simp add: cyclic_table_def)

lemma cyclic_square: "square (cyclic_table n)"
  by (simp add: square_def cyclic_table_def list_all_iff)

lemma cyclic_row: "i < n \<Longrightarrow> cyclic_table n ! i = map (\<lambda>j. int ((i + j) mod n)) [0..<n]"
  by (simp add: cyclic_table_def)

lemma cyclic_identity:
  assumes "1 \<le> n"
  shows "identity (cyclic_table n) = Inr 0"
proof -
  have z: "0 < n" using assms by simp
  have row0: "cyclic_table n ! 0 = arange n"
    using z by (simp add: cyclic_row arange_def)
  have uniq: "\<forall>k<n. cyclic_table n ! k = arange n \<longrightarrow> k = 0"
  proof (intro allI impI)
    fix k assume k: "k < n" and r: "cyclic_table n ! k = arange n"
    have "cyclic_table n ! k ! 0 = arange n ! 0" using r by simp
    then have "int ((k + 0) mod n) = int 0"
      using cyclic_nth [OF k z] z by (simp add: arange_def)
    then show "k = 0" using k by simp
  qed
  show ?thesis
    using identity_Inr_iff [OF cyclic_square, of n 0] z row0 uniq
    by (simp add: cyclic_length)
qed

lemma cyclic_inverse_arith:
  assumes "r < (n::nat)" and "c < n"
  shows "((r + c) mod n = 0) = (c = (n - r) mod n)"
proof (cases "r = 0")
  case True
  then show ?thesis using assms by auto
next
  case False
  then have nr: "(n - r) mod n = n - r" using assms by simp
  show ?thesis
  proof
    assume h: "(r + c) mod n = 0"
    then obtain q where q: "r + c = n * q" by (auto simp: mod_eq_0_iff_dvd)
    have "0 < r + c" using False by simp
    moreover have "r + c < 2 * n" using assms by simp
    ultimately have "q = 1" using q
      by (metis One_nat_def Suc_1 less_2_cases mult.commute mult_less_cancel2 mult_zero_right not_less_iff_gr_or_eq)
    then show "c = (n - r) mod n" using q nr by simp
  next
    assume "c = (n - r) mod n"
    then show "(r + c) mod n = 0" using nr assms by simp
  qed
qed

lemma cyclic_inverses:
  assumes "1 \<le> n"
  shows "inverses (cyclic_table n) = Inr (map (\<lambda>i. (n - i) mod n) [0..<n])"
proof -
  have z: "0 < n" using assms by simp
  let ?js = "map (\<lambda>i. (n - i) mod n) [0..<n]"
  have "length ?js = length (cyclic_table n) \<and>
      (\<forall>r<length (cyclic_table n). ?js ! r < length (cyclic_table n) \<and>
          cyclic_table n ! r ! (?js ! r) = int 0 \<and>
          (\<forall>c<length (cyclic_table n). cyclic_table n ! r ! c = int 0 \<longrightarrow> c = ?js ! r))"
  proof (simp only: cyclic_length, intro conjI allI impI)
    show "length ?js = n" by simp
  next
    fix r assume r: "r < n"
    have m: "(n - r) mod n < n" using z by simp
    show "?js ! r < n" using r m by simp
    show "cyclic_table n ! r ! (?js ! r) = int 0"
      using r m cyclic_inverse_arith [OF r m] by (simp add: cyclic_nth)
    fix c assume c: "c < n" and h: "cyclic_table n ! r ! c = int 0"
    then have "(r + c) mod n = 0" using r by (simp add: cyclic_nth)
    then show "c = ?js ! r" using r cyclic_inverse_arith [OF r c] by simp
  qed
  then show ?thesis
    by (rule inverses_Inr_iff [OF cyclic_square cyclic_identity [OF assms], THEN iffD2])
qed

section \<open>Claims about \<open>identity\<close>\<close>

text \<open>
  C2: on an \<open>n \<times> n\<close> integer table, \<open>identity\<close> returns \<open>i\<close> exactly when row \<open>i\<close> is
  the only row equal to \<open>[0, 1, \<dots>, n - 1]\<close>; when no row or more than one row
  qualifies it fails with the "No or multiple identities" error, which in particular
  happens when two rows are both equal to the index row.
\<close>

theorem identity_unique_row:
  assumes "square t"
  shows "((identity t = Inr i) =
            (i < length t \<and> t ! i = arange (length t) \<and>
             (\<forall>k<length t. t ! k = arange (length t) \<longrightarrow> k = i))) \<and>
         ((\<nexists>i. i < length t \<and> t ! i = arange (length t) \<and>
                (\<forall>k<length t. t ! k = arange (length t) \<longrightarrow> k = i))
            \<longrightarrow> identity t = Inl (ValueError ''No or multiple identities'')) \<and>
         ((\<exists>a b. a < length t \<and> b < length t \<and> a \<noteq> b \<and>
                  t ! a = arange (length t) \<and> t ! b = arange (length t))
            \<longrightarrow> identity t = Inl (ValueError ''No or multiple identities''))"
proof (intro conjI impI)
  show "(identity t = Inr i) =
            (i < length t \<and> t ! i = arange (length t) \<and>
             (\<forall>k<length t. t ! k = arange (length t) \<longrightarrow> k = i))"
    by (rule identity_Inr_iff [OF assms])
next
  assume "\<nexists>i. i < length t \<and> t ! i = arange (length t) \<and>
                (\<forall>k<length t. t ! k = arange (length t) \<longrightarrow> k = i)"
  then have "\<And>i. identity t \<noteq> Inr i"
    using identity_Inr_iff [OF assms] by blast
  then show "identity t = Inl (ValueError ''No or multiple identities'')"
    using identity_cases [of t] by blast
next
  assume "\<exists>a b. a < length t \<and> b < length t \<and> a \<noteq> b \<and>
                  t ! a = arange (length t) \<and> t ! b = arange (length t)"
  then have "\<And>i. identity t \<noteq> Inr i"
    using identity_Inr_iff [OF assms] by metis
  then show "identity t = Inl (ValueError ''No or multiple identities'')"
    using identity_cases [of t] by blast
qed

theorem identity_unique_row_witness:
  "square [[1, 0], [0, 1 :: int]] \<and> identity [[1, 0], [0, 1]] = Inr 1 \<and>
   square [[0, 1], [0, 1 :: int]] \<and>
   identity [[0, 1], [0, 1]] = Inl (ValueError ''No or multiple identities'')"
proof -
  have s1: "square [[1, 0], [0, 1 :: int]]" by (simp add: square_def)
  have s2: "square [[0, 1], [0, 1 :: int]]" by (simp add: square_def)
  have a: "arange (Suc (Suc 0)) = [0, 1]" by (simp add: arange_def)
  have "identity [[1, 0], [0, 1]] = Inr 1"
    using conjunct1 [OF identity_unique_row [OF s1, of 1]]
    by (simp add: a less_Suc_eq)
  moreover have "identity [[0, 1], [0, 1]] = Inl (ValueError ''No or multiple identities'')"
  proof -
    have "\<exists>a b. a < length [[0, 1], [0, 1 :: int]] \<and> b < length [[0, 1], [0, 1 :: int]] \<and>
            a \<noteq> b \<and> [[0, 1], [0, 1 :: int]] ! a = arange (length [[0, 1], [0, 1 :: int]]) \<and>
            [[0, 1], [0, 1 :: int]] ! b = arange (length [[0, 1], [0, 1 :: int]])"
      by (rule exI [of _ 0], rule exI [of _ 1]) (simp add: a)
    then show ?thesis
      using conjunct2 [OF conjunct2 [OF identity_unique_row [OF s2, of 0]]] by blast
  qed
  ultimately show ?thesis using s1 s2 by simp
qed

section \<open>Claims about \<open>inverses\<close>\<close>

text \<open>
  C3: on a valid group table \<open>inverses\<close> returns a sequence \<open>js\<close> of length \<open>n\<close> with
  \<open>table[i, js[i]]\<close> equal to the identity for every \<open>i\<close>, and \<open>js[i]\<close> is the only
  such column of row \<open>i\<close>. On a square table with an identity, the positions scanned
  are exactly the (row, column) pairs holding the identity, each once; when their
  count is not \<open>n\<close>, or their row indices are not \<open>0, \<dots>, n - 1\<close> once each in
  increasing order, \<open>inverses\<close> fails with the "Every element does not have one
  inverse" error.
\<close>

theorem inverses_of_valid_table:
  "(valid_group_table t \<longrightarrow>
      (\<exists>e js. identity t = Inr e \<and> inverses t = Inr js \<and> length js = length t \<and>
         (\<forall>i<length t. js ! i < length t \<and> t ! i ! (js ! i) = int e \<and>
             (\<forall>j<length t. t ! i ! j = int e \<longrightarrow> j = js ! i)))) \<and>
   (square t \<and> identity t = Inr e' \<longrightarrow>
      set (identity_positions t e') =
        {(r, c). r < length t \<and> c < length t \<and> t ! r ! c = int e'} \<and>
      distinct (identity_positions t e') \<and>
      ((length (identity_positions t e') \<noteq> length t \<or>
        map fst (identity_positions t e') \<noteq> [0..<length t]) \<longrightarrow>
       inverses t = Inl (ValueError ''Every element does not have one inverse'')))"
proof (intro conjI impI)
  assume "valid_group_table t"
  then show "\<exists>e js. identity t = Inr e \<and> inverses t = Inr js \<and> length js = length t \<and>
         (\<forall>i<length t. js ! i < length t \<and> t ! i ! (js ! i) = int e \<and>
             (\<forall>j<length t. t ! i ! j = int e \<longrightarrow> j = js ! i))"
    using valid_inverses [of t] by blast
next
  assume "square t \<and> identity t = Inr e'"
  then show "set (identity_positions t e') =
        {(r, c). r < length t \<and> c < length t \<and> t ! r ! c = int e'}"
    by (simp add: identity_positions_set)
next
  assume "square t \<and> identity t = Inr e'"
  then show "distinct (identity_positions t e')"
    by (simp add: identity_positions_distinct)
next
  assume "square t \<and> identity t = Inr e'"
    and "length (identity_positions t e') \<noteq> length t \<or>
        map fst (identity_positions t e') \<noteq> [0..<length t]"
  then show "inverses t = Inl (ValueError ''Every element does not have one inverse'')"
    using inverses_failure [of t e'] by blast
qed

theorem inverses_of_valid_table_witness:
  "valid_group_table [[0, 1, 2], [1, 2, 0], [2, 0, 1]] \<and>
   (\<exists>e js. identity [[0, 1, 2], [1, 2, 0], [2, 0, 1]] = Inr e \<and>
      inverses [[0, 1, 2], [1, 2, 0], [2, 0, 1]] = Inr js \<and>
      [[0, 1, 2], [1, 2, 0], [2, 0, 1]] ! 1 ! (js ! 1) = int e) \<and>
   inverses [[0, 1, 2], [1, 2, 0], [2, 0, 1]] = Inr [0, 2, 1] \<and>
   square [[0, 1], [1, 1 :: int]] \<and> identity [[0, 1], [1, 1]] = Inr 0 \<and>
   length (identity_positions [[0, 1], [1, 1]] 0) = 1 \<and>
   inverses [[0, 1], [1, 1]] = Inl (ValueError ''Every element does not have one inverse'')"
proof -
  let ?t = "[[0, 1, 2], [1, 2, 0], [2, 0, 1 :: int]]"
  let ?u = "[[0, 1], [1, 1 :: int]]"
  have v: "valid_group_table ?t" by code_simp
  obtain e js where ejs: "identity ?t = Inr e" "inverses ?t = Inr js"
      "\<forall>i<length ?t. js ! i < length ?t \<and> ?t ! i ! (js ! i) = int e \<and>
             (\<forall>j<length ?t. ?t ! i ! j = int e \<longrightarrow> j = js ! i)"
    using inverses_of_valid_table [of ?t 0, THEN conjunct1, rule_format, OF v] by blast
  have "(1::nat) < length ?t" by simp
  then have "?t ! 1 ! (js ! 1) = int e" using ejs(3) by blast
  then have a: "\<exists>e js. identity ?t = Inr e \<and> inverses ?t = Inr js \<and> ?t ! 1 ! (js ! 1) = int e"
    using ejs(1,2) by blast
  have b: "inverses ?t = Inr [0, 2, 1]" by code_simp
  have s: "square ?u \<and> identity ?u = Inr 0" by code_simp
  have l: "length (identity_positions ?u 0) = 1" by code_simp
  have "length (identity_positions ?u 0) \<noteq> length ?u \<or>
        map fst (identity_positions ?u 0) \<noteq> [0..<length ?u]"
    using l by simp
  then have c: "inverses ?u = Inl (ValueError ''Every element does not have one inverse'')"
    using inverses_of_valid_table [of ?u 0] s by blast
  show ?thesis using v a b s l c by blast
qed

text \<open>
  C6: on a valid group table (all rows and columns permutations of \<open>0, \<dots>, n - 1\<close>,
  one identity row) the result of \<open>inverses\<close> is a permutation of \<open>0, \<dots>, n - 1\<close>: no
  index is the inverse of two elements and every index is the inverse of some element.
\<close>

theorem inverses_permutation:
  assumes "valid_group_table t"
  shows "\<exists>js. inverses t = Inr js \<and> length js = length t \<and> distinct js \<and>
           set js = {0..<length t} \<and> mset js = mset [0..<length t]"
proof -
  obtain js where js: "inverses t = Inr js"
    using valid_inverses [OF assms] by blast
  have p: "length js = length t \<and> distinct js \<and> set js = {0..<length t}"
    by (rule valid_inverses_permutation [OF assms js])
  have "mset js = mset [0..<length t]"
  proof (rule set_eq_iff_mset_eq_distinct [THEN iffD1])
    show "distinct js" using p by blast
    show "distinct [0..<length t]" by simp
    show "set js = set [0..<length t]" using p by simp
  qed
  then show ?thesis using js p by blast
qed

theorem inverses_permutation_witness:
  "valid_group_table [[0, 1, 2], [1, 2, 0], [2, 0, 1]] \<and>
   (\<exists>js. inverses [[0, 1, 2], [1, 2, 0], [2, 0, 1]] = Inr js \<and> length js = 3 \<and>
      distinct js \<and> set js = {0..<3})"
proof -
  let ?t = "[[0, 1, 2], [1, 2, 0], [2, 0, 1 :: int]]"
  have v: "valid_group_table ?t" by code_simp
  have l: "length ?t = 3" by simp
  obtain js where "inverses ?t = Inr js" "length js = length ?t" "distinct js"
      "set js = {0..<length ?t}"
    using inverses_permutation [OF v] by blast
  then have "inverses ?t = Inr js \<and> length js = 3 \<and> distinct js \<and> set js = {0..<3}"
    by (simp only: l)
  then show ?thesis using v by blast
qed

text \<open>
  C9: for every \<open>n \<ge> 1\<close>, on the cyclic table \<open>table[i, j] = (i + j) mod n\<close> the
  function \<open>identity\<close> returns \<open>0\<close> and \<open>inverses\<close> returns the sequence whose entry
  \<open>i\<close> is \<open>(n - i) mod n\<close>; for \<open>n = 1\<close> these are \<open>0\<close> and \<open>[0]\<close>.
\<close>

theorem cyclic_identity_inverses:
  assumes "1 \<le> n"
  shows "identity (cyclic_table n) = Inr 0 \<and>
         inverses (cyclic_table n) = Inr (map (\<lambda>i. (n - i) mod n) [0..<n])"
  using cyclic_identity [OF assms] cyclic_inverses [OF assms] by simp

theorem cyclic_identity_inverses_witness:
  "(1::nat) \<le> 1 \<and> cyclic_table 1 = [[0]] \<and> identity (cyclic_table 1) = Inr 0 \<and>
   inverses (cyclic_table 1) = Inr [0] \<and>
   (1::nat) \<le> 4 \<and> inverses (cyclic_table 4) = Inr [0, 3, 2, 1]"
proof -
  have a: "(1::nat) \<le> 1" by simp
  have b: "(1::nat) \<le> 4" by simp
  have c: "cyclic_table 1 = [[0]]" by code_simp
  have d: "map (\<lambda>i. (1 - i) mod 1) [0..<1] = [0::nat]" by code_simp
  have e: "map (\<lambda>i. (4 - i) mod 4) [0..<4] = [0, 3, 2, 1::nat]" by code_simp
  have i1: "identity (cyclic_table 1) = Inr 0"
    using cyclic_identity_inverses [OF a] by (rule conjunct1)
  have v1: "inverses (cyclic_table 1) = Inr [0]"
    using cyclic_identity_inverses [OF a, THEN conjunct2] by (simp only: d)
  have v4: "inverses (cyclic_table 4) = Inr [0, 3, 2, 1]"
    using cyclic_identity_inverses [OF b, THEN conjunct2] by (simp only: e)
  show ?thesis using a b c i1 v1 v4 by (intro conjI)
qed

section \<open>The writes of \<open>regular_representation\<close>\<close>

lemma dims3_zeros: "dims3 n (replicate n (replicate n (replicate n x)))"
  by (simp add: dims3_def)

lemma set_one_outer:
  assumes "g < length D"
  shows "set_one D (g', r', h') ! g =
         (if g = g' then (D ! g)[r' := (D ! g ! r')[h' := 1]] else D ! g)"
proof (cases "g = g'")
  case True
  then show ?thesis using assms by (simp add: set_one_def)
next
  case False
  then show ?thesis by (simp add: set_one_def)
qed

lemma update_row_nth:
  assumes "r < length M"
  shows "M[r' := (M ! r')[h' := x]] ! r = (if r = r' then (M ! r)[h' := x] else M ! r)"
proof (cases "r = r'")
  case True
  then show ?thesis using assms by simp
next
  case False
  then show ?thesis by simp
qed

lemma update_cell_nth:
  assumes "h < length xs"
  shows "xs[h' := x] ! h = (if h = h' then x else xs ! h)"
proof (cases "h = h'")
  case True
  then show ?thesis using assms by simp
next
  case False
  then show ?thesis by simp
qed

lemma set_one_nth:
  assumes "dims3 n D" and "g < n" and "r < n" and "h < n"
  shows "set_one D (g', r', h') ! g ! r ! h =
         (if g = g' \<and> r = r' \<and> h = h' then 1 else D ! g ! r ! h)"
proof -
  have lD: "g < length D" and lM: "r < length (D ! g)" and lx: "h < length (D ! g ! r)"
    using assms by (simp_all add: dims3_def)
  show ?thesis
  proof (cases "g = g'")
    case False
    then show ?thesis by (simp add: set_one_outer [OF lD])
  next
    case g: True
    have o: "set_one D (g', r', h') ! g = (D ! g)[r' := (D ! g ! r')[h' := 1]]"
      using g set_one_outer [OF lD, of g' r' h'] by simp
    show ?thesis
    proof (cases "r = r'")
      case False
      then show ?thesis by (simp add: o)
    next
      case r: True
      have "set_one D (g', r', h') ! g ! r = (D ! g ! r)[h' := 1]"
        using r lM o by simp
      then show ?thesis using g r update_cell_nth [OF lx, of h' 1] by simp
    qed
  qed
qed

lemma set_one_dims:
  assumes "dims3 n D"
  shows "dims3 n (set_one D (g', r', h'))"
proof -
  have len: "length (set_one D (g', r', h')) = n"
    using assms by (simp add: dims3_def set_one_def)
  have rows: "\<forall>g<n. length (set_one D (g', r', h') ! g) = n \<and>
                (\<forall>r<n. length (set_one D (g', r', h') ! g ! r) = n)"
  proof (intro allI impI conjI)
    fix g assume g: "g < n"
    then have lD: "g < length D" using assms by (simp add: dims3_def)
    have lg: "length (D ! g) = n" using assms g by (simp add: dims3_def)
    show "length (set_one D (g', r', h') ! g) = n"
      using lg set_one_outer [OF lD, of g' r' h'] by (cases "g = g'") simp_all
    fix r assume r: "r < n"
    then have lM: "r < length (D ! g)" using lg by simp
    have lr: "length (D ! g ! r) = n" using assms g r by (simp add: dims3_def)
    show "length (set_one D (g', r', h') ! g ! r) = n"
    proof (cases "g = g'")
      case False
      then show ?thesis using lr by (simp add: set_one_outer [OF lD])
    next
      case True
      then have "set_one D (g', r', h') ! g ! r =
                 (if r = r' then (D ! g ! r)[h' := 1] else D ! g ! r)"
        using update_row_nth [OF lM, of r' h' 1] set_one_outer [OF lD, of g' r' h'] by simp
      then show ?thesis using lr by (cases "r = r'") simp_all
    qed
  qed
  show ?thesis using len rows by (simp add: dims3_def)
qed

lemma fold_set_one_dims:
  "dims3 n D \<Longrightarrow> dims3 n (fold (\<lambda>w D. set_one D w) ws D)"
proof (induction ws arbitrary: D)
  case Nil
  then show ?case by simp
next
  case (Cons w ws)
  obtain g r h where w: "w = (g, r, h)" by (cases w) auto
  show ?case using Cons.IH [OF set_one_dims [OF Cons.prems, of g r h]] by (simp add: w)
qed

lemma fold_set_one_nth:
  assumes "dims3 n D" and "g < n" and "r < n" and "h < n"
  shows "fold (\<lambda>w D. set_one D w) ws D ! g ! r ! h =
         (if (g, r, h) \<in> set ws then 1 else D ! g ! r ! h)"
  using assms(1)
proof (induction ws arbitrary: D)
  case Nil
  then show ?case by simp
next
  case (Cons w ws)
  obtain g' r' h' where w: "w = (g', r', h')" by (cases w) auto
  have d: "dims3 n (set_one D (g', r', h'))" by (rule set_one_dims [OF Cons.prems])
  show ?case
    using Cons.IH [OF d] set_one_nth [OF Cons.prems assms(2,3,4), of g' r' h']
    by (auto simp: w)
qed

lemma meshgrid_set: "set (meshgrid_ij n) = {(g, h). g < n \<and> h < n}"
  by (auto simp: meshgrid_ij_def)

lemma fold_writes:
  "fold (\<lambda>(g, k, h) D. set_one D (g, wrap_index n k, h)) ghs D =
   fold (\<lambda>w D. set_one D w) (map (\<lambda>(g, k, h). (g, wrap_index n k, h)) ghs) D"
  by (induction ghs arbitrary: D) (auto simp: case_prod_beta)

lemma writes_set:
  "set (map (\<lambda>(g, k, h). (g, wrap_index n k, h))
          (map (\<lambda>(g, h). (g, t ! g ! h, h)) (meshgrid_ij n)))
   = {(g, r, h). g < n \<and> h < n \<and> r = wrap_index n (t ! g ! h)}"
  by (auto simp: meshgrid_set image_iff)

lemma regular_representation_entries:
  assumes inb: "\<forall>g<length t. \<forall>h<length t. index_in_bounds (length t) (t ! g ! h)"
  shows "\<exists>D. regular_representation t = Inr D \<and> dims3 (length t) D \<and>
           (\<forall>g<length t. \<forall>r<length t. \<forall>h<length t.
               D ! g ! r ! h = (if r = wrap_index (length t) (t ! g ! h) then 1 else 0))"
proof -
  let ?n = "length t"
  let ?ghs = "map (\<lambda>(g, h). (g, t ! g ! h, h)) (meshgrid_ij ?n)"
  let ?ws = "map (\<lambda>(g, k, h). (g, wrap_index ?n k, h)) ?ghs"
  let ?Z = "replicate ?n (replicate ?n (replicate ?n (0::real)))"
  let ?D = "fold (\<lambda>w D. set_one D w) ?ws ?Z"
  have chk: "list_all (\<lambda>(g, k, h). index_in_bounds ?n k) ?ghs"
    using inb by (auto simp: list_all_iff meshgrid_set)
  have res: "regular_representation t = Inr ?D"
    using chk by (simp add: regular_representation_def Let_def fold_writes)
  have d: "dims3 ?n ?D" by (rule fold_set_one_dims [OF dims3_zeros])
  have ent: "\<forall>g<?n. \<forall>r<?n. \<forall>h<?n.
               ?D ! g ! r ! h = (if r = wrap_index ?n (t ! g ! h) then 1 else 0)"
  proof (intro allI impI)
    fix g r h assume g: "g < ?n" and r: "r < ?n" and h: "h < ?n"
    have m: "((g, r, h) \<in> set ?ws) = (r = wrap_index ?n (t ! g ! h))"
      using g h by (simp only: writes_set) simp
    have "?D ! g ! r ! h = (if (g, r, h) \<in> set ?ws then 1 else ?Z ! g ! r ! h)"
      by (rule fold_set_one_nth [OF dims3_zeros g r h])
    then show "?D ! g ! r ! h = (if r = wrap_index ?n (t ! g ! h) then 1 else 0)"
      using g r h by (simp only: m) simp
  qed
  show ?thesis using res d ent by blast
qed

lemma valid_multiplication_table_nth:
  assumes "valid_multiplication_table t" and "g < length t" and "h < length t"
  shows "0 \<le> t ! g ! h \<and> t ! g ! h < int (length t)"
proof -
  have "length (t ! g) = length t"
    using assms by (simp add: valid_multiplication_table_def square_def list_all_length)
  then show ?thesis
    using assms
    by (simp add: valid_multiplication_table_def entries_in_range_def list_all_length)
qed

lemma basis_product:
  assumes "length xs = n" and "h < n"
  shows "sum_list (map2 (\<lambda>a b. a * b) xs (basis n h)) = xs ! h"
proof -
  have "map2 (\<lambda>a b. a * b) xs (basis n h) = map (\<lambda>i. if i = h then xs ! h else 0) [0..<n]"
    using assms by (auto simp: basis_def list_eq_iff_nth_eq)
  then have "sum_list (map2 (\<lambda>a b. a * b) xs (basis n h))
             = (\<Sum>i = 0..<n. if i = h then xs ! h else 0)"
    by (simp add: interv_sum_list_conv_sum_set_nat)
  then show ?thesis using assms(2) by simp
qed

lemma regular_representation_valid:
  assumes "valid_multiplication_table t"
  shows "\<exists>D. regular_representation t = Inr D \<and> dims3 (length t) D \<and>
           (\<forall>g<length t. \<forall>r<length t. \<forall>h<length t.
               D ! g ! r ! h = (if int r = t ! g ! h then 1 else 0))"
proof -
  let ?n = "length t"
  have rng: "\<And>g h. g < ?n \<Longrightarrow> h < ?n \<Longrightarrow> 0 \<le> t ! g ! h \<and> t ! g ! h < int ?n"
    by (rule valid_multiplication_table_nth [OF assms])
  have inb: "\<forall>g<?n. \<forall>h<?n. index_in_bounds ?n (t ! g ! h)"
    using rng by (fastforce simp: index_in_bounds_def)
  obtain D where D: "regular_representation t = Inr D" "dims3 ?n D"
     "\<forall>g<?n. \<forall>r<?n. \<forall>h<?n.
        D ! g ! r ! h = (if r = wrap_index ?n (t ! g ! h) then 1 else 0)"
    using regular_representation_entries [OF inb] by blast
  have "\<forall>g<?n. \<forall>r<?n. \<forall>h<?n. D ! g ! r ! h = (if int r = t ! g ! h then 1 else 0)"
  proof (intro allI impI)
    fix g r h assume g: "g < ?n" and r: "r < ?n" and h: "h < ?n"
    have "(r = wrap_index ?n (t ! g ! h)) = (int r = t ! g ! h)"
      using rng [OF g h] by (auto simp: wrap_index_def)
    then show "D ! g ! r ! h = (if int r = t ! g ! h then 1 else 0)"
      using D(3) g r h by simp
  qed
  then show ?thesis using D(1,2) by blast
qed


section \<open>Claims about \<open>regular_representation\<close>\<close>

text \<open>
  C4: for a valid \<open>n \<times> n\<close> multiplication table, \<open>regular_representation\<close> returns a
  stack \<open>D\<close> of \<open>n\<close> matrices of size \<open>n \<times> n\<close> with \<open>D[g][table[g, h], h] = 1\<close> for all
  \<open>g\<close> and \<open>h\<close> and every other entry of \<open>D[g]\<close> equal to \<open>0\<close>; equivalently \<open>D[g]\<close>
  maps the basis vector \<open>e\<^sub>h\<close> to \<open>e\<close> at index \<open>table[g, h]\<close>.
\<close>

theorem regular_representation_table:
  assumes "valid_multiplication_table t"
  shows "\<exists>D. regular_representation t = Inr D \<and> length D = length t \<and>
     (\<forall>g<length t. length (D ! g) = length t \<and>
        (\<forall>r<length t. length (D ! g ! r) = length t) \<and>
        (\<forall>h<length t.
           nat (t ! g ! h) < length t \<and>
           D ! g ! nat (t ! g ! h) ! h = 1 \<and>
           (\<forall>r<length t. r \<noteq> nat (t ! g ! h) \<longrightarrow> D ! g ! r ! h = 0) \<and>
           matvec (D ! g) (basis (length t) h) = basis (length t) (nat (t ! g ! h))))"
proof -
  let ?n = "length t"
  have rng: "\<And>g h. g < ?n \<Longrightarrow> h < ?n \<Longrightarrow> 0 \<le> t ! g ! h \<and> t ! g ! h < int ?n"
    by (rule valid_multiplication_table_nth [OF assms])
  obtain D where D: "regular_representation t = Inr D" "dims3 ?n D"
     "\<forall>g<?n. \<forall>r<?n. \<forall>h<?n. D ! g ! r ! h = (if int r = t ! g ! h then 1 else 0)"
    using regular_representation_valid [OF assms] by blast
  have "\<forall>g<?n. length (D ! g) = ?n \<and>
        (\<forall>r<?n. length (D ! g ! r) = ?n) \<and>
        (\<forall>h<?n.
           nat (t ! g ! h) < ?n \<and>
           D ! g ! nat (t ! g ! h) ! h = 1 \<and>
           (\<forall>r<?n. r \<noteq> nat (t ! g ! h) \<longrightarrow> D ! g ! r ! h = 0) \<and>
           matvec (D ! g) (basis ?n h) = basis ?n (nat (t ! g ! h)))"
  proof (intro allI impI conjI)
    fix g assume g: "g < ?n"
    show lg: "length (D ! g) = ?n" using D(2) g by (simp add: dims3_def)
    show "\<And>r. r < ?n \<Longrightarrow> length (D ! g ! r) = ?n" using D(2) g by (simp add: dims3_def)
    fix h assume h: "h < ?n"
    show k: "nat (t ! g ! h) < ?n" using rng [OF g h] by (simp add: nat_less_iff)
    show "D ! g ! nat (t ! g ! h) ! h = 1" using D(3) g h k rng [OF g h] by simp
    show "\<And>r. r < ?n \<Longrightarrow> r \<noteq> nat (t ! g ! h) \<Longrightarrow> D ! g ! r ! h = 0"
      using D(3) g h rng [OF g h] by auto
    show "matvec (D ! g) (basis ?n h) = basis ?n (nat (t ! g ! h))"
    proof (rule nth_equalityI)
      show "length (matvec (D ! g) (basis ?n h)) = length (basis ?n (nat (t ! g ! h)))"
        using lg by (simp add: matvec_def basis_def)
    next
      fix r assume "r < length (matvec (D ! g) (basis ?n h))"
      then have r: "r < ?n" using lg by (simp add: matvec_def)
      have lr: "length (D ! g ! r) = ?n" using D(2) g r by (simp add: dims3_def)
      have "matvec (D ! g) (basis ?n h) ! r = D ! g ! r ! h"
        using r lg basis_product [OF lr h] by (simp add: matvec_def)
      also have "\<dots> = (if int r = t ! g ! h then 1 else 0)" using D(3) g r h by simp
      also have "\<dots> = basis ?n (nat (t ! g ! h)) ! r"
        using r rng [OF g h] by (auto simp: basis_def)
      finally show "matvec (D ! g) (basis ?n h) ! r = basis ?n (nat (t ! g ! h)) ! r" .
    qed
  qed
  moreover have "length D = ?n" using D(2) by (simp add: dims3_def)
  ultimately show ?thesis using D(1) by blast
qed


theorem regular_representation_table_witness:
  "valid_multiplication_table [[0, 1, 2], [1, 2, 0], [2, 0, 1]] \<and>
   (\<exists>D. regular_representation [[0, 1, 2], [1, 2, 0], [2, 0, 1]] = Inr D \<and>
        length D = 3 \<and> D ! 1 ! 0 ! 2 = 1 \<and> D ! 1 ! 1 ! 2 = 0 \<and>
        matvec (D ! 1) (basis 3 2) = basis 3 0) \<and>
   regular_representation [[0, 1, 2], [1, 2, 0], [2, 0, 1]] =
     Inr [[[1, 0, 0], [0, 1, 0], [0, 0, 1]],
          [[0, 0, 1], [1, 0, 0], [0, 1, 0]],
          [[0, 1, 0], [0, 0, 1], [1, 0, 0]]] \<and>
   valid_multiplication_table [[0]] \<and> regular_representation [[0]] = Inr [[[1]]]"
proof -
  let ?t = "[[0, 1, 2], [1, 2, 0], [2, 0, 1 :: int]]"
  have v: "valid_multiplication_table ?t" by code_simp
  have v1: "valid_multiplication_table [[0]]" by code_simp
  have l: "length ?t = 3" by simp
  have e: "nat (?t ! 1 ! 2) = 0" by simp
  obtain D where D: "regular_representation ?t = Inr D" "length D = length ?t"
     "\<forall>g<length ?t. length (D ! g) = length ?t \<and>
        (\<forall>r<length ?t. length (D ! g ! r) = length ?t) \<and>
        (\<forall>h<length ?t.
           nat (?t ! g ! h) < length ?t \<and>
           D ! g ! nat (?t ! g ! h) ! h = 1 \<and>
           (\<forall>r<length ?t. r \<noteq> nat (?t ! g ! h) \<longrightarrow> D ! g ! r ! h = 0) \<and>
           matvec (D ! g) (basis (length ?t) h) = basis (length ?t) (nat (?t ! g ! h)))"
    using regular_representation_table [OF v] by blast
  have g1: "(1::nat) < length ?t" and h2: "(2::nat) < length ?t" by simp_all
  have row: "D ! 1 ! nat (?t ! 1 ! 2) ! 2 = 1 \<and>
           (\<forall>r<length ?t. r \<noteq> nat (?t ! 1 ! 2) \<longrightarrow> D ! 1 ! r ! 2 = 0) \<and>
           matvec (D ! 1) (basis (length ?t) 2) = basis (length ?t) (nat (?t ! 1 ! 2))"
    using D(3) g1 h2 by blast
  have a: "D ! 1 ! 0 ! 2 = 1" using row by (simp only: e)
  have "(1::nat) \<noteq> nat (?t ! 1 ! 2)" by simp
  then have b: "D ! 1 ! 1 ! 2 = 0" using row g1 by blast
  have c: "matvec (D ! 1) (basis 3 2) = basis 3 0" using row by (simp only: e l)
  have d: "length D = 3" using D(2) by (simp only: l)
  have x: "regular_representation ?t =
     Inr [[[1, 0, 0], [0, 1, 0], [0, 0, 1]],
          [[0, 0, 1], [1, 0, 0], [0, 1, 0]],
          [[0, 1, 0], [0, 0, 1], [1, 0, 0]]]" by code_simp
  have y: "regular_representation [[0]] = Inr [[[1]]]" by code_simp
  show ?thesis using v v1 D(1) a b c d x y by blast
qed

lemma rows_permutations_valid:
  assumes "rows_permutations t"
  shows "valid_multiplication_table t"
proof -
  have p: "\<And>row. row \<in> set t \<Longrightarrow> is_permutation (length t) row"
    using assms by (simp add: rows_permutations_def list_all_iff)
  have "square t"
    using p permutation_facts(1) by (auto simp: square_def list_all_iff)
  moreover have "entries_in_range t"
    using p permutation_facts(3) by (fastforce simp: entries_in_range_def list_all_iff)
  ultimately show ?thesis by (simp add: valid_multiplication_table_def)
qed


text \<open>
  C8: when every row of the table is a permutation of \<open>0, \<dots>, n - 1\<close>, every matrix
  \<open>D[g]\<close> returned by \<open>regular_representation\<close> is a permutation matrix: each entry
  is \<open>0\<close> or \<open>1\<close>, every row of \<open>D[g]\<close> holds exactly one \<open>1\<close> and every column of
  \<open>D[g]\<close> holds exactly one \<open>1\<close>.
\<close>

theorem regular_representation_permutation_matrices:
  assumes "rows_permutations t"
  shows "\<exists>D. regular_representation t = Inr D \<and> length D = length t \<and>
     (\<forall>g<length t. length (D ! g) = length t \<and>
        (\<forall>r<length t. length (D ! g ! r) = length t \<and>
            (\<forall>h<length t. D ! g ! r ! h = 0 \<or> D ! g ! r ! h = 1) \<and>
            (\<exists>h. h < length t \<and> D ! g ! r ! h = 1 \<and>
                 (\<forall>h'<length t. D ! g ! r ! h' = 1 \<longrightarrow> h' = h))) \<and>
        (\<forall>h<length t. \<exists>r. r < length t \<and> D ! g ! r ! h = 1 \<and>
                 (\<forall>r'<length t. D ! g ! r' ! h = 1 \<longrightarrow> r' = r)))"
proof -
  let ?n = "length t"
  have v: "valid_multiplication_table t" by (rule rows_permutations_valid [OF assms])
  have rng: "\<And>g h. g < ?n \<Longrightarrow> h < ?n \<Longrightarrow> 0 \<le> t ! g ! h \<and> t ! g ! h < int ?n"
    by (rule valid_multiplication_table_nth [OF v])
  obtain D where D: "regular_representation t = Inr D" "dims3 ?n D"
     "\<forall>g<?n. \<forall>r<?n. \<forall>h<?n. D ! g ! r ! h = (if int r = t ! g ! h then 1 else 0)"
    using regular_representation_valid [OF v] by blast
  have one: "\<And>g r h. g < ?n \<Longrightarrow> r < ?n \<Longrightarrow> h < ?n \<Longrightarrow>
               (D ! g ! r ! h = 1) = (t ! g ! h = int r)"
    using D(3) by auto
  have "\<forall>g<?n. length (D ! g) = ?n \<and>
        (\<forall>r<?n. length (D ! g ! r) = ?n \<and>
            (\<forall>h<?n. D ! g ! r ! h = 0 \<or> D ! g ! r ! h = 1) \<and>
            (\<exists>h. h < ?n \<and> D ! g ! r ! h = 1 \<and>
                 (\<forall>h'<?n. D ! g ! r ! h' = 1 \<longrightarrow> h' = h))) \<and>
        (\<forall>h<?n. \<exists>r. r < ?n \<and> D ! g ! r ! h = 1 \<and>
                 (\<forall>r'<?n. D ! g ! r' ! h = 1 \<longrightarrow> r' = r))"
  proof (intro allI impI conjI)
    fix g assume g: "g < ?n"
    show "length (D ! g) = ?n" using D(2) g by (simp add: dims3_def)
    have perm: "is_permutation ?n (t ! g)"
      using assms g by (simp add: rows_permutations_def list_all_length)
    {
      fix r assume r: "r < ?n"
      show "length (D ! g ! r) = ?n" using D(2) g r by (simp add: dims3_def)
      show "\<And>h. h < ?n \<Longrightarrow> D ! g ! r ! h = 0 \<or> D ! g ! r ! h = 1"
        using D(3) g r by simp
      obtain c where c: "c < ?n" "t ! g ! c = int r" "\<forall>k<?n. t ! g ! k = int r \<longrightarrow> k = c"
        using permutation_unique_position [OF perm r] by blast
      show "\<exists>h. h < ?n \<and> D ! g ! r ! h = 1 \<and> (\<forall>h'<?n. D ! g ! r ! h' = 1 \<longrightarrow> h' = h)"
      proof (intro exI [of _ c] conjI allI impI)
        show "c < ?n" by (rule c(1))
        show "D ! g ! r ! c = 1" using one [OF g r c(1)] c(2) by simp
        fix h' assume "h' < ?n" "D ! g ! r ! h' = 1"
        then show "h' = c" using one [OF g r] c(3) by simp
      qed
    }
    fix h assume h: "h < ?n"
    let ?r = "nat (t ! g ! h)"
    have k: "?r < ?n" "int ?r = t ! g ! h" using rng [OF g h] by (simp_all add: nat_less_iff)
    show "\<exists>r. r < ?n \<and> D ! g ! r ! h = 1 \<and> (\<forall>r'<?n. D ! g ! r' ! h = 1 \<longrightarrow> r' = r)"
    proof (intro exI [of _ ?r] conjI allI impI)
      show "?r < ?n" by (rule k(1))
      show "D ! g ! ?r ! h = 1" using one [OF g k(1) h] k(2) by simp
      fix r' assume r': "r' < ?n" "D ! g ! r' ! h = 1"
      then have "t ! g ! h = int r'" using one [OF g r'(1) h] by simp
      then show "r' = ?r" by simp
    qed
  qed
  moreover have "length D = ?n" using D(2) by (simp add: dims3_def)
  ultimately show ?thesis using D(1) by blast
qed


theorem regular_representation_permutation_matrices_witness:
  "rows_permutations [[0, 1, 2], [1, 2, 0], [2, 0, 1]] \<and>
   (\<exists>D. regular_representation [[0, 1, 2], [1, 2, 0], [2, 0, 1]] = Inr D \<and>
        length D = 3 \<and> length (D ! 1) = 3 \<and>
        (\<exists>h. h < 3 \<and> D ! 1 ! 0 ! h = 1) \<and> (\<exists>r. r < 3 \<and> D ! 1 ! r ! 0 = 1))"
proof -
  let ?t = "[[0, 1, 2], [1, 2, 0], [2, 0, 1 :: int]]"
  have v: "rows_permutations ?t" by code_simp
  have l: "length ?t = 3" by simp
  obtain D where D: "regular_representation ?t = Inr D" "length D = length ?t"
     "\<forall>g<length ?t. length (D ! g) = length ?t \<and>
        (\<forall>r<length ?t. length (D ! g ! r) = length ?t \<and>
            (\<forall>h<length ?t. D ! g ! r ! h = 0 \<or> D ! g ! r ! h = 1) \<and>
            (\<exists>h. h < length ?t \<and> D ! g ! r ! h = 1 \<and>
                 (\<forall>h'<length ?t. D ! g ! r ! h' = 1 \<longrightarrow> h' = h))) \<and>
        (\<forall>h<length ?t. \<exists>r. r < length ?t \<and> D ! g ! r ! h = 1 \<and>
                 (\<forall>r'<length ?t. D ! g ! r' ! h = 1 \<longrightarrow> r' = r))"
    using regular_representation_permutation_matrices [OF v] by blast
  have g1: "(1::nat) < length ?t" and z: "(0::nat) < length ?t" by simp_all
  note m = D(3) [rule_format, OF g1]
  have a: "length (D ! 1) = length ?t" by (rule m [THEN conjunct1])
  note row = m [THEN conjunct2, THEN conjunct1, rule_format, OF z]
  note col = m [THEN conjunct2, THEN conjunct2, rule_format, OF z]
  obtain h where "h < length ?t" "D ! 1 ! 0 ! h = 1"
    using row [THEN conjunct2, THEN conjunct2] by blast
  then have b: "\<exists>h. h < length ?t \<and> D ! 1 ! 0 ! h = 1" by blast
  obtain r where "r < length ?t" "D ! 1 ! r ! 0 = 1"
    using col by blast
  then have c: "\<exists>r. r < length ?t \<and> D ! 1 ! r ! 0 = 1" by blast
  have "length D = 3 \<and> length (D ! 1) = 3 \<and>
        (\<exists>h. h < 3 \<and> D ! 1 ! 0 ! h = 1) \<and> (\<exists>r. r < 3 \<and> D ! 1 ! r ! 0 = 1)"
    using D(2) a b c by (simp only: l) 
  then show ?thesis using v D(1) by blast
qed

end
